theory Spec2Isabelle
  imports Complex_Main
begin

section \<open>Data model\<close>

text \<open>
  The repository holds two versions of the analysis route, both defining
  \<^verbatim>\<open>takeScreenshots\<close> and \<^verbatim>\<open>POST\<close>: \<^verbatim>\<open>src/unnamed/part_000\<close> (drill-down
  detector, mega-container collapse, clip built with \<^verbatim>\<open>Math.round\<close>) and
  \<^verbatim>\<open>src/app/api/analyze/route.js\<close> (clip built with \<^verbatim>\<open>Math.floor\<close> and clamped
  against the raster's metadata). Definitions taken from the second file carry the
  prefix \<open>route_\<close>; all others are taken from the first.

  JavaScript numbers are modelled as exact reals (pixel counts the code makes integral
  as \<open>int\<close>): rounding error of IEEE doubles is outside this development.
\<close>

text \<open>The four properties of \<^verbatim>\<open>window.getComputedStyle(el)\<close> that the detector reads.\<close>

record style =
  display :: string
  visibility :: string
  opacity :: string
  position :: string

text \<open>
  A \<^verbatim>\<open>DOMRect\<close> as \<^verbatim>\<open>getBoundingClientRect()\<close> returns it. It stores an origin and a
  size; \<^verbatim>\<open>top\<close> and \<^verbatim>\<open>bottom\<close> are the derived attributes of the geometry
  interface (the smaller resp. larger of the two horizontal edges).
\<close>

record domrect =
  rect_x :: real
  rect_y :: real
  rect_width :: real
  rect_height :: real

definition rect_top :: "domrect \<Rightarrow> real" where
  "rect_top r = min (rect_y r) (rect_y r + rect_height r)"

definition rect_bottom :: "domrect \<Rightarrow> real" where
  "rect_bottom r = max (rect_y r) (rect_y r + rect_height r)"

text \<open>
  A DOM element: \<open>eid\<close> stands for the identity of the JavaScript object (what
  \<^verbatim>\<open>el !== megaContainer\<close> compares), the style and rectangle are what the browser
  reports for it in the snapshot the detector runs on, \<open>children\<close> is
  \<^verbatim>\<open>Array.from(el.children)\<close> in document order.
\<close>

datatype element =
  Element (eid: nat) (computedStyle: style) (boundingRect: domrect) (children: "element list")

text \<open>
  What the in-page script sees: \<^verbatim>\<open>document.body\<close>, the result of
  \<^verbatim>\<open>document.querySelector('main')\<close> (\<open>None\<close> for \<^verbatim>\<open>null\<close>) and \<^verbatim>\<open>window.scrollY\<close>.
\<close>

record page =
  body :: element
  mainEl :: "element option"
  scrollY :: real

text \<open>The objects the detector returns and the rectangle handed to \<^verbatim>\<open>sharp.extract\<close>.\<close>

record page_section =
  y_start :: real
  y_end :: real

record clip =
  clip_left :: int
  clip_top :: int
  clip_width :: int
  clip_height :: int

section \<open>The scroll loop (part_000, lines 22-37)\<close>

text \<open>
  The timer callback, one call per tick. \<open>scrollHeightAt k\<close> is the value
  \<^verbatim>\<open>document.body.scrollHeight\<close> has when tick \<open>k\<close> reads it (ticks counted from 0);
  \<open>totalHeight\<close> is the variable of the same name, \<open>distance\<close> the constant 200.
  The result is the number of ticks run and the final \<open>totalHeight\<close>; a loop that
  never clears its timer has the value \<open>None\<close>.
\<close>

definition distance :: int where
  "distance = 200"

partial_function (option) scrollLoop :: "(nat \<Rightarrow> int) \<Rightarrow> nat \<Rightarrow> int \<Rightarrow> (nat \<times> int) option" where
  "scrollLoop scrollHeightAt k totalHeight =
     (if totalHeight + distance \<ge> scrollHeightAt k
      then Some (Suc k, totalHeight + distance)
      else scrollLoop scrollHeightAt (Suc k) (totalHeight + distance))"

definition scrollPage :: "(nat \<Rightarrow> int) \<Rightarrow> (nat \<times> int) option" where
  "scrollPage scrollHeightAt = scrollLoop scrollHeightAt 0 0"

section \<open>The section detector (part_000, lines 41-105)\<close>

text \<open>
  \<^verbatim>\<open>isPotentialSection\<close>. Its first test (\<^verbatim>\<open>!el\<close> or no \<^verbatim>\<open>getBoundingClientRect\<close>) is
  never true of a member of \<^verbatim>\<open>container.children\<close>, the only values it is applied to.
\<close>

definition isPotentialSection :: "element \<Rightarrow> bool" where
  "isPotentialSection el =
     (let st = computedStyle el in
      if display st = ''none'' \<or> visibility st = ''hidden'' \<or> opacity st = ''0''
           \<or> position st = ''fixed''
      then False
      else (let rect = boundingRect el in rect_height rect > 50 \<and> rect_width rect > 100))"

definition getSections :: "element \<Rightarrow> element list" where
  "getSections container = filter isPotentialSection (children container)"

lemma size_child: "c \<in> set (children e) \<Longrightarrow> size c < size e"
  by (cases e) (auto simp: less_Suc_eq_le size_list_estimation')

lemma getSections_child: "c \<in> set (getSections e) \<Longrightarrow> c \<in> set (children e)"
  by (simp add: getSections_def)

text \<open>
  The drill-down loop: \<open>drillDown container\<close> is the value of \<^verbatim>\<open>candidateElements\<close>
  when the \<^verbatim>\<open>while (candidateElements.length === 1)\<close> loop started at \<open>container\<close>
  ends.
\<close>

function drillDown :: "element \<Rightarrow> element list" where
  "drillDown container =
     (case getSections container of
        [c] \<Rightarrow> drillDown c
      | candidateElements \<Rightarrow> candidateElements)"
  by pat_completeness auto
termination
proof (relation "measure size")
  show "wf (measure (size :: element \<Rightarrow> nat))" by simp
next
  fix container :: element and x21 :: element and x22 :: "element list"
  assume "getSections container = x21 # x22" and "x22 = []"
  then have "x21 \<in> set (getSections container)" by simp
  then have "size x21 < size container" by (intro size_child getSections_child)
  then show "(x21, container) \<in> measure size" by simp
qed

declare drillDown.simps [simp del]

text \<open>The landmark fallback (lines 64-76).\<close>

definition candidates :: "page \<Rightarrow> element list" where
  "candidates p =
     (let candidateElements = drillDown (body p) in
      case mainEl p of
        None \<Rightarrow> candidateElements
      | Some m \<Rightarrow>
          if length candidateElements \<le> 2
          then (let mainCandidates = drillDown m in
                if length mainCandidates > length candidateElements
                then mainCandidates else candidateElements)
          else candidateElements)"

text \<open>The mega-container collapse (lines 78-92).\<close>

definition totalHeight :: "element list \<Rightarrow> real" where
  "totalHeight candidateElements =
     foldl (\<lambda>sum el. sum + rect_height (boundingRect el)) 0 candidateElements"

definition megaContainer :: "element list \<Rightarrow> element option" where
  "megaContainer candidateElements =
     find (\<lambda>el. rect_height (boundingRect el) > totalHeight candidateElements * (8/10))
       candidateElements"

definition finalElements :: "element list \<Rightarrow> element list" where
  "finalElements candidateElements =
     (case megaContainer candidateElements of
        Some m \<Rightarrow>
          (let innerSections = getSections m;
               peerSections = filter (\<lambda>el. eid el \<noteq> eid m) candidateElements
           in innerSections @ peerSections)
      | None \<Rightarrow> candidateElements)"

text \<open>
  The final filter, the sort and the map (lines 94-104). \<^verbatim>\<open>Array.prototype.sort\<close> is
  stable and the comparator is the difference of the two \<^verbatim>\<open>top\<close> values, so the sort
  is the stable sort by that key.
\<close>

definition sortedElements :: "element list \<Rightarrow> element list" where
  "sortedElements els =
     sort_key (\<lambda>el. rect_top (boundingRect el))
       (filter (\<lambda>el. rect_height (boundingRect el) > 50) els)"

definition toSection :: "real \<Rightarrow> element \<Rightarrow> page_section" where
  "toSection sy el =
     (let rect = boundingRect el in
      \<lparr>y_start = rect_top rect + sy, y_end = rect_bottom rect + sy\<rparr>)"

definition detector :: "page \<Rightarrow> page_section list" where
  "detector p =
     map (toSection (scrollY p)) (sortedElements (finalElements (candidates p)))"

section \<open>The slicer (part_000, lines 107-149)\<close>

text \<open>\<^verbatim>\<open>Math.round\<close>: the nearest integer, a tie going up.\<close>

definition js_round :: "real \<Rightarrow> int" where
  "js_round v = \<lfloor>v + 1/2\<rfloor>"

text \<open>The \<^verbatim>\<open>clip\<close> object of lines 124-129.\<close>

definition clipOf :: "page_section \<Rightarrow> clip" where
  "clipOf s =
     \<lparr>clip_left = 0, clip_top = js_round (y_start s),
      clip_width = 1280, clip_height = js_round (y_end s - y_start s)\<rparr>"

text \<open>
  The calls that leave the program, each of which may throw: in \<^verbatim>\<open>POST\<close> the launch of
  the browser, the parsing of the URL and the creation of the output directory
  (\<open>launch_ok\<close>); navigation and viewport set-up (\<open>goto_ok\<close>); the master screenshot;
  \<^verbatim>\<open>sharp(...).extract(clip).toFile(...)\<close> for a given clip; the removal of the master
  file. \<open>scrollHeightAt\<close> is the page's live scroll height, as read by the scroll loop.
\<close>

record io =
  launch_ok :: bool
  goto_ok :: bool
  scrollHeightAt :: "nat \<Rightarrow> int"
  screenshot_ok :: bool
  extract_ok :: "clip \<Rightarrow> bool"
  unlink_ok :: bool

datatype error = LaunchError | NavigationError | ScreenshotError | ExtractError nat | UnlinkError

text \<open>
  What the loop prints, in order: the warning of a skipped section, the announcement of
  an extraction, the confirmation that \<^verbatim>\<open>section-<n>.png\<close> was written. Numbers are the
  1-based \<^verbatim>\<open>i + 1\<close> of the source.
\<close>

datatype log_entry = Skipping nat clip | Extracting nat clip | Saved nat

fun savedFiles :: "log_entry list \<Rightarrow> nat list" where
  "savedFiles [] = []"
| "savedFiles (Saved n # es) = n # savedFiles es"
| "savedFiles (_ # es) = savedFiles es"

fun skippedSections :: "log_entry list \<Rightarrow> nat list" where
  "skippedSections [] = []"
| "skippedSections (Skipping n c # es) = n # skippedSections es"
| "skippedSections (_ # es) = skippedSections es"

text \<open>
  The \<^verbatim>\<open>for\<close> loop of lines 120-144, from index \<open>i\<close> on: the log it leaves and the
  exception that ended it, if one did.
\<close>

fun sliceLoop :: "io \<Rightarrow> nat \<Rightarrow> page_section list \<Rightarrow> log_entry list \<times> error option" where
  "sliceLoop env i [] = ([], None)"
| "sliceLoop env i (s # rest) =
     (let c = clipOf s in
      if clip_height c \<le> 0 \<or> clip_width c \<le> 0
      then (let (es, e) = sliceLoop env (i + 1) rest in (Skipping (i + 1) c # es, e))
      else if extract_ok env c
      then (let (es, e) = sliceLoop env (i + 1) rest
            in (Extracting (i + 1) c # Saved (i + 1) # es, e))
      else ([Extracting (i + 1) c], Some (ExtractError (i + 1))))"

text \<open>
  The files of the output directory when the function is left: whether
  \<^verbatim>\<open>master.png\<close> is there, and the numbers \<open>n\<close> of the files \<^verbatim>\<open>section-<n>.png\<close>.
\<close>

record disk =
  master :: bool
  crops :: "nat list"

text \<open>
  Lines 107-149: everything \<^verbatim>\<open>takeScreenshots\<close> does once the detector has returned
  \<open>sections\<close>. The result is the returned count, or the exception thrown.
\<close>

definition slicer :: "io \<Rightarrow> page_section list \<Rightarrow> disk \<times> (error + nat)" where
  "slicer env sections =
     (if length sections = 0 then (\<lparr>master = False, crops = []\<rparr>, Inr 0)
      else if \<not> screenshot_ok env then (\<lparr>master = False, crops = []\<rparr>, Inl ScreenshotError)
      else (case sliceLoop env 0 sections of
              (es, Some e) \<Rightarrow> (\<lparr>master = True, crops = savedFiles es\<rparr>, Inl e)
            | (es, None) \<Rightarrow>
                if unlink_ok env
                then (\<lparr>master = False, crops = savedFiles es\<rparr>, Inr (length sections))
                else (\<lparr>master = True, crops = savedFiles es\<rparr>, Inl UnlinkError)))"

text \<open>
  \<^verbatim>\<open>takeScreenshots\<close> on a page whose DOM, once scrolled, is \<open>p\<close>. \<open>None\<close>: the scroll
  loop never ends, and the function never returns.
\<close>

definition takeScreenshots :: "io \<Rightarrow> page \<Rightarrow> (disk \<times> (error + nat)) option" where
  "takeScreenshots env p =
     (if \<not> goto_ok env then Some (\<lparr>master = False, crops = []\<rparr>, Inl NavigationError)
      else (case scrollPage (scrollHeightAt env) of
              None \<Rightarrow> None
            | Some _ \<Rightarrow> Some (slicer env (detector p))))"

section \<open>The request handler (part_000, lines 152-194)\<close>

text \<open>
  The response body: the list of screenshot references, each
  \<^verbatim>\<open>/screenshots/<uniqueDir>/section-<n>.png\<close> given by its number \<open>n\<close>, or an error
  message. Closing the browser in the \<^verbatim>\<open>finally\<close> block changes neither the response
  nor the files and is left out.
\<close>

datatype payload = Screenshots "nat list" | UrlRequired | Failed error

record response =
  status :: nat
  payload :: payload

definition screenshotPaths :: "nat \<Rightarrow> nat list" where
  "screenshotPaths numScreenshots = map (\<lambda>i. i + 1) [0..<numScreenshots]"

text \<open>\<open>url\<close> is the field of the request's JSON body, \<open>None\<close> when it is missing.\<close>

definition POST :: "io \<Rightarrow> string option \<Rightarrow> page \<Rightarrow> (disk \<times> response) option" where
  "POST env url p =
     (if url = None \<or> url = Some []
      then Some (\<lparr>master = False, crops = []\<rparr>, \<lparr>status = 400, payload = UrlRequired\<rparr>)
      else if \<not> launch_ok env
      then Some (\<lparr>master = False, crops = []\<rparr>, \<lparr>status = 500, payload = Failed LaunchError\<rparr>)
      else (case takeScreenshots env p of
              None \<Rightarrow> None
            | Some (d, Inl e) \<Rightarrow> Some (d, \<lparr>status = 500, payload = Failed e\<rparr>)
            | Some (d, Inr numScreenshots) \<Rightarrow>
                Some (d, \<lparr>status = 200, payload = Screenshots (screenshotPaths numScreenshots)\<rparr>)))"

section \<open>The slicer of route.js (lines 98-130)\<close>






section \<open>The bounds a crop is to respect\<close>


section \<open>Example inputs\<close>

text \<open>
  A visible, statically positioned element with the given identity, rectangle
  (\<open>x\<close>, \<open>y\<close>, width, height) and children, and an environment in which no external
  call fails and the page is 1000 pixels high.
\<close>

definition shown :: style where
  "shown = \<lparr>display = ''block'', visibility = ''visible'', opacity = ''1'', position = ''static''\<rparr>"

definition box :: "nat \<Rightarrow> real \<Rightarrow> real \<Rightarrow> real \<Rightarrow> real \<Rightarrow> element list \<Rightarrow> element" where
  "box n x y w h kids =
     Element n shown \<lparr>rect_x = x, rect_y = y, rect_width = w, rect_height = h\<rparr> kids"

definition allOk :: io where
  "allOk = \<lparr>launch_ok = True, goto_ok = True, scrollHeightAt = (\<lambda>k. 1000),
            screenshot_ok = True, extract_ok = (\<lambda>c. True), unlink_ok = True\<rparr>"

section \<open>Properties of the scroll loop\<close>

text \<open>
  Started at tick \<open>k\<close> with \<open>totalHeight = t\<close> on a page whose scroll height never
  exceeds \<open>B\<close>, the loop stops, and it stops at the first tick whose own reading of
  the scroll height is reached by the accumulated distance.
\<close>

lemma scrollLoop_bounded:
  assumes "\<forall>k. h k \<le> B"
  shows "\<exists>n. scrollLoop h k t = Some (Suc (k + n), t + distance * int (Suc n))
           \<and> h (k + n) \<le> t + distance * int (Suc n)
           \<and> (\<forall>j<n. t + distance * int (Suc j) < h (k + j))"
proof (induction "nat (B - t)" arbitrary: k t rule: less_induct)
  case less
  show ?case
  proof (cases "h k \<le> t + distance")
    case True
    then have "scrollLoop h k t = Some (Suc k, t + distance)"
      by (subst scrollLoop.simps) simp
    with True show ?thesis
      by (intro exI[of _ 0]) simp
  next
    case False
    then have lt: "t + distance < h k" by simp
    with assms have "t + distance < B" by (meson le_less_trans not_le order_trans)
    then have "nat (B - (t + distance)) < nat (B - t)"
      by (simp add: distance_def)
    from less[OF this, of "Suc k"] obtain n where
      n: "scrollLoop h (Suc k) (t + distance) = Some (Suc (Suc k + n), t + distance + distance * int (Suc n))"
         "h (Suc k + n) \<le> t + distance + distance * int (Suc n)"
         "\<forall>j<n. t + distance + distance * int (Suc j) < h (Suc k + j)"
      by blast
    have step: "scrollLoop h k t = scrollLoop h (Suc k) (t + distance)"
      using False by (subst scrollLoop.simps) simp
    have a: "scrollLoop h k t = Some (Suc (k + Suc n), t + distance * int (Suc (Suc n)))"
      using n(1) step by (simp add: algebra_simps)
    have b: "h (k + Suc n) \<le> t + distance * int (Suc (Suc n))"
      using n(2) by (simp add: algebra_simps)
    have c: "\<forall>j<Suc n. t + distance * int (Suc j) < h (k + j)"
    proof (intro allI impI)
      fix j assume "j < Suc n"
      show "t + distance * int (Suc j) < h (k + j)"
      proof (cases j)
        case 0
        then show ?thesis using lt by simp
      next
        case (Suc i)
        with \<open>j < Suc n\<close> have "i < n" by simp
        with n(3) have "t + distance + distance * int (Suc i) < h (Suc k + i)" by blast
        then show ?thesis using Suc by (simp add: algebra_simps)
      qed
    qed
    from a b c show ?thesis by blast
  qed
qed

text \<open>
  C9. Each tick compares the accumulated distance with the scroll height read at that
  very tick (\<open>h j\<close> for tick \<open>j\<close>), after adding the fixed \<open>distance\<close> of 200. If the
  scroll height is bounded, the loop ends: it ends at tick \<open>n\<close>, the first tick at
  which the accumulated distance \<open>200 * (n + 1)\<close> reaches or exceeds the height read
  at that tick, and at no earlier tick.
\<close>

theorem scroll_loop_terminates:
  assumes "\<forall>k. h k \<le> B"
  shows "\<exists>n. scrollPage h = Some (Suc n, distance * int (Suc n))
           \<and> h n \<le> distance * int (Suc n)
           \<and> (\<forall>j<n. distance * int (Suc j) < h j)"
  using scrollLoop_bounded[OF assms, of 0 0] by (simp add: scrollPage_def)

text \<open>
  A page that grows from 500 to 1000 pixels while it is scrolled: the loop runs five
  ticks, not the three a height cached at the start would give.
\<close>

theorem scroll_loop_terminates_witness:
  "(\<forall>k::nat. (if k < 2 then 500 else 1000 :: int) \<le> 1000)
   \<and> scrollPage (\<lambda>k. if k < 2 then 500 else 1000) = Some (5, 1000)"
proof -
  let ?h = "\<lambda>k::nat. if k < 2 then 500 else 1000 :: int"
  have bound: "\<forall>k. ?h k \<le> 1000" by simp
  from scroll_loop_terminates[OF bound] obtain n where
    n: "scrollPage ?h = Some (Suc n, distance * int (Suc n))"
       "?h n \<le> distance * int (Suc n)"
       "\<forall>j<n. distance * int (Suc j) < ?h j"
    by blast
  have "n \<le> 4"
  proof (rule ccontr)
    assume "\<not> n \<le> 4"
    then have "4 < n" by simp
    with n(3) have "distance * int (Suc 4) < ?h 4" by blast
    then show False by (simp add: distance_def)
  qed
  moreover have "4 \<le> n"
    using n(2) by (auto simp: distance_def split: if_splits)
  ultimately have "n = 4" by simp
  with n(1) have "scrollPage ?h = Some (5, 1000)" by (simp add: distance_def)
  with bound show ?thesis by blast
qed

section \<open>Properties of the detector\<close>

text \<open>The two ways the drill-down loop goes on or stops.\<close>

lemma drillDown_single: "getSections container = [c] \<Longrightarrow> drillDown container = drillDown c"
  by (subst drillDown.simps) simp

lemma drillDown_stop:
  "length (getSections container) \<noteq> 1 \<Longrightarrow> drillDown container = getSections container"
  by (subst drillDown.simps) (auto split: list.splits)

lemma drillDown_length: "length (drillDown container) \<noteq> 1"
proof (induction container rule: drillDown.induct)
  case (1 container)
  show ?case
  proof (cases "getSections container")
    case Nil
    then show ?thesis by (subst drillDown.simps) simp
  next
    case (Cons c cs)
    show ?thesis
    proof (cases cs)
      case Nil
      with Cons have "getSections container = [c]" by simp
      with 1 Cons Nil show ?thesis by (simp add: drillDown_single)
    next
      case (Cons d ds)
      with \<open>getSections container = c # cs\<close> show ?thesis
        by (subst drillDown.simps) simp
    qed
  qed
qed

lemma drillDown_qualify: "el \<in> set (drillDown container) \<Longrightarrow> isPotentialSection el"
proof (induction container rule: drillDown.induct)
  case (1 container)
  show ?case
  proof (cases "length (getSections container) = 1")
    case True
    then obtain c where c: "getSections container = [c]"
      by (cases "getSections container") auto
    with 1 show ?thesis by (simp add: drillDown_single)
  next
    case False
    with 1(2) have "el \<in> set (getSections container)" by (simp add: drillDown_stop)
    then show ?thesis by (simp add: getSections_def)
  qed
qed

lemma candidates_qualify: "el \<in> set (candidates p) \<Longrightarrow> isPotentialSection el"
  by (auto simp: candidates_def Let_def drillDown_qualify split: option.splits if_splits)

lemma qualify_height: "isPotentialSection el \<Longrightarrow> rect_height (boundingRect el) > 50"
  by (simp add: isPotentialSection_def Let_def split: if_splits)

lemma totalHeight_sum_list:
  "totalHeight els = sum_list (map (\<lambda>el. rect_height (boundingRect el)) els)"
proof -
  have "foldl (\<lambda>sum el. sum + rect_height (boundingRect el)) a els
          = a + sum_list (map (\<lambda>el. rect_height (boundingRect el)) els)" for a
    by (induction els arbitrary: a) simp_all
  then show ?thesis by (simp add: totalHeight_def)
qed


lemma member_le_sum:
  fixes h :: "'a \<Rightarrow> real"
  assumes "\<forall>x\<in>set xs. 0 \<le> h x" and "y \<in> set xs"
  shows "h y \<le> sum_list (map h xs)"
  using assms
proof (induction xs)
  case Nil
  then show ?case by simp
next
  case (Cons x xs)
  from Cons.prems(1) have "\<forall>x\<in>set xs. 0 \<le> h x" by simp
  then have nonneg: "0 \<le> sum_list (map h xs)" by (intro sum_list_nonneg) auto
  from Cons show ?case
  proof (cases "y = x")
    case True
    with nonneg show ?thesis by simp
  next
    case False
    with Cons have "h y \<le> sum_list (map h xs)" by simp
    moreover from Cons.prems have "0 \<le> h x" by simp
    ultimately show ?thesis by simp
  qed
qed

lemma two_above_threshold:
  fixes h :: "'a \<Rightarrow> real"
  assumes "\<forall>x\<in>set xs. 0 \<le> h x" and "2 \<le> length (filter (\<lambda>x. h x > t) xs)"
  shows "2 * t < sum_list (map h xs)"
  using assms
proof (induction xs)
  case Nil
  then show ?case by simp
next
  case (Cons x xs)
  show ?case
  proof (cases "h x > t")
    case True
    with Cons.prems(2) have "filter (\<lambda>x. h x > t) xs \<noteq> []" by auto
    then obtain y where y: "y \<in> set xs" "h y > t"
      by (metis (mono_tags, lifting) filter_False)
    from Cons.prems(1) y(1) have "h y \<le> sum_list (map h xs)"
      by (intro member_le_sum) simp_all
    with y(2) True show ?thesis by simp
  next
    case False
    with Cons have "2 * t < sum_list (map h xs)" by simp
    moreover from Cons.prems have "0 \<le> h x" by simp
    ultimately show ?thesis by simp
  qed
qed

lemma singleton_list: "length xs \<le> 1 \<Longrightarrow> x \<in> set xs \<Longrightarrow> xs = [x]"
  by (cases xs) auto

lemma find_as_filter: "find P xs = (case filter P xs of [] \<Rightarrow> None | x # _ \<Rightarrow> Some x)"
  by (induction xs) simp_all

text \<open>
  Among elements of positive height at most one is taller than 80% of the sum, so
  \<^verbatim>\<open>find\<close> returns that one.
\<close>

lemma megaContainer_unique:
  assumes pos: "\<forall>c\<in>set cands. 0 < rect_height (boundingRect c)"
    and m: "m \<in> set cands"
    and big: "rect_height (boundingRect m) > totalHeight cands * (8/10)"
  shows "megaContainer cands = Some m"
proof -
  let ?h = "\<lambda>el. rect_height (boundingRect el)"
  let ?t = "totalHeight cands * (8/10)"
  let ?big = "filter (\<lambda>el. ?h el > ?t) cands"
  have nonneg: "\<forall>c\<in>set cands. 0 \<le> ?h c" using pos by (auto intro: less_imp_le)
  have total: "totalHeight cands = sum_list (map ?h cands)" by (rule totalHeight_sum_list)
  have "?h m \<le> totalHeight cands" unfolding total using nonneg m by (rule member_le_sum)
  moreover have "0 < ?h m" using pos m by blast
  ultimately have positive: "0 < totalHeight cands" by simp
  have short: "\<not> 2 \<le> length ?big"
  proof
    assume "2 \<le> length ?big"
    with nonneg have "2 * ?t < sum_list (map ?h cands)" by (rule two_above_threshold)
    with total positive show False by simp
  qed
  have "m \<in> set ?big" using m big by simp
  moreover from short have "length ?big \<le> 1" by linarith
  ultimately have "?big = [m]" by (intro singleton_list)
  then show ?thesis by (simp add: megaContainer_def find_as_filter)
qed

lemma sortedElements_set:
  "set (sortedElements els) = {el \<in> set els. rect_height (boundingRect el) > 50}"
  by (auto simp: sortedElements_def)

lemma box_qualifies: "isPotentialSection (box n x y w h kids) \<longleftrightarrow> 50 < h \<and> 100 < w"
  by (simp add: isPotentialSection_def box_def shown_def)

lemma box_sel:
  "children (box n x y w h kids) = kids"
  "eid (box n x y w h kids) = n"
  "rect_height (boundingRect (box n x y w h kids)) = h"
  "rect_top (boundingRect (box n x y w h kids)) = min y (y + h)"
  "rect_bottom (boundingRect (box n x y w h kids)) = max y (y + h)"
  by (simp_all add: box_def rect_top_def rect_bottom_def)

text \<open>
  The collapse on any list of qualifying elements: if one of them is taller than 80%
  of the summed heights, the result is its own qualifying children followed by every
  other element of the list, and the final height filter drops none of them.
\<close>

lemma collapse_of_qualifying:
  assumes "\<forall>c\<in>set cands. isPotentialSection c"
    and "m \<in> set cands"
    and "rect_height (boundingRect m) > totalHeight cands * (8/10)"
  shows "finalElements cands = getSections m @ filter (\<lambda>el. eid el \<noteq> eid m) cands"
    and "filter (\<lambda>el. rect_height (boundingRect el) > 50) (finalElements cands)
           = finalElements cands"
proof -
  have "\<forall>c\<in>set cands. 0 < rect_height (boundingRect c)"
  proof
    fix c assume "c \<in> set cands"
    with assms(1) have "50 < rect_height (boundingRect c)" by (intro qualify_height) blast
    then show "0 < rect_height (boundingRect c)" by simp
  qed
  then have mega: "megaContainer cands = Some m"
    using assms(2,3) by (rule megaContainer_unique)
  then show final: "finalElements cands = getSections m @ filter (\<lambda>el. eid el \<noteq> eid m) cands"
    by (simp add: finalElements_def)
  have "\<forall>el\<in>set (finalElements cands). rect_height (boundingRect el) > 50"
    using assms(1) unfolding final by (auto simp: getSections_def dest: qualify_height)
  then show "filter (\<lambda>el. rect_height (boundingRect el) > 50) (finalElements cands)
               = finalElements cands"
    by (simp add: filter_id_conv)
qed

text \<open>
  C4. If one of the detector's candidates is taller than 80% of the summed heights of
  the candidates, the list the collapse builds is that candidate's own qualifying
  children followed by every other candidate, unchanged and in their order; the
  candidate itself is gone. The final height filter drops none of them, so the
  detector returns the sections of exactly these elements, sorted by top edge.
\<close>

theorem mega_container_collapse:
  assumes "m \<in> set (candidates p)"
    and "rect_height (boundingRect m) > totalHeight (candidates p) * (8/10)"
  shows "finalElements (candidates p)
           = getSections m @ filter (\<lambda>el. eid el \<noteq> eid m) (candidates p)
         \<and> detector p
           = map (toSection (scrollY p))
               (sort_key (\<lambda>el. rect_top (boundingRect el))
                  (getSections m @ filter (\<lambda>el. eid el \<noteq> eid m) (candidates p)))"
proof -
  have q: "\<forall>c\<in>set (candidates p). isPotentialSection c"
    by (simp add: candidates_qualify)
  note collapse = collapse_of_qualifying[OF q assms]
  have "sortedElements (finalElements (candidates p))
          = sort_key (\<lambda>el. rect_top (boundingRect el)) (finalElements (candidates p))"
    by (simp add: sortedElements_def collapse(2))
  then show ?thesis by (simp add: detector_def collapse(1))
qed

text \<open>
  The scenario of the specification: a body holding \<open>M\<close> of height 820, with two
  qualifying children of heights 400 and 420, and a footer \<open>F\<close> of height 180.
\<close>

theorem mega_container_collapse_witness:
  "candidates \<lparr>body = box 0 0 0 1280 1000
       [box 5 0 0 1280 820 [box 3 0 0 1280 400 [], box 4 0 400 1280 420 []],
        box 2 0 820 1280 180 []], mainEl = None, scrollY = 0\<rparr>
     = [box 5 0 0 1280 820 [box 3 0 0 1280 400 [], box 4 0 400 1280 420 []],
        box 2 0 820 1280 180 []]
   \<and> totalHeight [box 5 0 0 1280 820 [box 3 0 0 1280 400 [], box 4 0 400 1280 420 []],
                   box 2 0 820 1280 180 []] = 1000
   \<and> finalElements [box 5 0 0 1280 820 [box 3 0 0 1280 400 [], box 4 0 400 1280 420 []],
                     box 2 0 820 1280 180 []]
       = [box 3 0 0 1280 400 [], box 4 0 400 1280 420 [], box 2 0 820 1280 180 []]
   \<and> detector \<lparr>body = box 0 0 0 1280 1000
       [box 5 0 0 1280 820 [box 3 0 0 1280 400 [], box 4 0 400 1280 420 []],
        box 2 0 820 1280 180 []], mainEl = None, scrollY = 0\<rparr>
       = [\<lparr>y_start = 0, y_end = 400\<rparr>, \<lparr>y_start = 400, y_end = 820\<rparr>,
          \<lparr>y_start = 820, y_end = 1000\<rparr>]"
proof -
  let ?M = "box 5 0 0 1280 820 [box 3 0 0 1280 400 [], box 4 0 400 1280 420 []]"
  let ?F = "box 2 0 820 1280 180 []"
  let ?p = "\<lparr>body = box 0 0 0 1280 1000 [?M, ?F], mainEl = None, scrollY = 0\<rparr>"
  have cands: "candidates ?p = [?M, ?F]"
    by (simp add: candidates_def drillDown_stop getSections_def box_sel box_qualifies)
  have total: "totalHeight [?M, ?F] = 1000" by (simp add: totalHeight_def box_sel)
  have m: "?M \<in> set (candidates ?p)" by (simp add: cands)
  have big: "rect_height (boundingRect ?M) > totalHeight (candidates ?p) * (8/10)"
    unfolding cands total by (simp add: box_sel)
  from mega_container_collapse[OF m big]
  have "finalElements [?M, ?F] = [box 3 0 0 1280 400 [], box 4 0 400 1280 420 [], ?F]"
    and "detector ?p = [\<lparr>y_start = 0, y_end = 400\<rparr>, \<lparr>y_start = 400, y_end = 820\<rparr>,
                        \<lparr>y_start = 820, y_end = 1000\<rparr>]"
    by (simp_all add: cands getSections_def box_sel box_qualifies toSection_def Let_def)
  with cands total show ?thesis by simp
qed



lemma toSection_sel:
  "y_start (toSection sy el) = rect_top (boundingRect el) + sy"
  "y_end (toSection sy el) = rect_bottom (boundingRect el) + sy"
  by (simp_all add: toSection_def Let_def)

lemma tall_span:
  "50 < rect_height r \<Longrightarrow> rect_bottom r - rect_top r = rect_height r"
  by (simp add: rect_top_def rect_bottom_def)

lemma detector_span:
  assumes "s \<in> set (detector p)"
  shows "50 < y_end s - y_start s"
proof -
  from assms obtain el where el: "el \<in> set (sortedElements (finalElements (candidates p)))"
    and s: "s = toSection (scrollY p) el"
    by (auto simp: detector_def)
  from el have "50 < rect_height (boundingRect el)" by (simp add: sortedElements_set)
  then show ?thesis unfolding s by (simp add: toSection_sel tall_span)
qed

lemma detector_sorted: "sorted (map y_start (detector p))"
proof -
  let ?f = "\<lambda>el. rect_top (boundingRect el)"
  let ?els = "sortedElements (finalElements (candidates p))"
  have "sorted (map ?f ?els)" by (simp add: sortedElements_def)
  then have "sorted_wrt (\<lambda>x y. ?f x \<le> ?f y) ?els" by (simp add: sorted_map)
  then have "sorted_wrt (\<lambda>x y. ?f x + scrollY p \<le> ?f y + scrollY p) ?els" by simp
  then have "sorted (map (\<lambda>el. ?f el + scrollY p) ?els)" by (simp only: sorted_map)
  moreover have "map y_start (detector p) = map (\<lambda>el. ?f el + scrollY p) ?els"
    by (simp add: detector_def toSection_sel)
  ultimately show ?thesis by simp
qed

text \<open>
  C8 (as amended). The sections the detector returns are in ascending order of their
  absolute top offset, equal offsets allowed, and each is more than 50 pixels high.
\<close>

theorem sections_sorted:
  "sorted (map y_start (detector p)) \<and> (\<forall>s\<in>set (detector p). 50 < y_end s - y_start s)"
  using detector_sorted detector_span by blast

text \<open>Two columns side by side, each 640 wide and 600 high, both starting at the top.\<close>

lemma two_columns_sections:
  "detector \<lparr>body = box 0 0 0 1280 600 [box 2 0 0 640 600 [], box 3 640 0 640 600 []],
             mainEl = None, scrollY = 0\<rparr>
     = [\<lparr>y_start = 0, y_end = 600\<rparr>, \<lparr>y_start = 0, y_end = 600\<rparr>]"
  by (simp add: detector_def candidates_def drillDown_stop getSections_def box_sel box_qualifies
      finalElements_def megaContainer_def totalHeight_def sortedElements_def toSection_def Let_def)

theorem sections_sorted_witness:
  "sorted (map y_start (detector \<lparr>body = box 0 0 0 1280 600
              [box 2 0 0 640 600 [], box 3 640 0 640 600 []], mainEl = None, scrollY = 0\<rparr>))
   \<and> 50 < y_end \<lparr>y_start = 0, y_end = 600\<rparr> - y_start \<lparr>y_start = 0, y_end = 600\<rparr>"
  using sections_sorted[of "\<lparr>body = box 0 0 0 1280 600
              [box 2 0 0 640 600 [], box 3 640 0 640 600 []], mainEl = None, scrollY = 0\<rparr>"]
  by (simp add: two_columns_sections)

text \<open>
  The order is not strict: the two columns give two sections with the same top offset.
\<close>

theorem sections_strict_counterexample:
  "\<not> sorted_wrt (<) (map y_start (detector \<lparr>body = box 0 0 0 1280 600
              [box 2 0 0 640 600 [], box 3 640 0 640 600 []], mainEl = None, scrollY = 0\<rparr>))
   \<and> \<not> distinct (map y_start (detector \<lparr>body = box 0 0 0 1280 600
              [box 2 0 0 640 600 [], box 3 640 0 640 600 []], mainEl = None, scrollY = 0\<rparr>))"
  by (simp add: two_columns_sections)

lemma no_mega_final:
  assumes "\<forall>el\<in>set cands. \<not> rect_height (boundingRect el) > totalHeight cands * (8/10)"
  shows "finalElements cands = cands"
proof -
  have "megaContainer cands = None"
    using assms by (simp add: megaContainer_def find_None_iff)
  then show ?thesis by (simp add: finalElements_def)
qed

lemma sortedElements_id:
  assumes "\<forall>el\<in>set els. isPotentialSection el"
    and "sorted (map (\<lambda>el. rect_top (boundingRect el)) els)"
  shows "sortedElements els = els"
proof -
  have "filter (\<lambda>el. rect_height (boundingRect el) > 50) els = els"
    using assms(1) by (auto simp: filter_id_conv dest: qualify_height)
  with assms(2) show ?thesis by (simp add: sortedElements_def sort_key_id_if_sorted)
qed

text \<open>
  C5 (as amended). With a body that wraps a single qualifying element, which wraps a
  single qualifying element, which holds the qualifying elements \<open>a\<close>, \<open>b\<close>, \<open>c\<close>,
  the drill-down ends with the candidates \<open>[a, b, c]\<close> in document order, whether or
  not the page has a \<^verbatim>\<open>main\<close> element. The detector returns exactly their three
  sections in that order if, in addition, none of the three is taller than 80% of
  their summed heights and their top edges ascend in document order.
\<close>

theorem wrapper_drilling:
  assumes "children (body p) = [d1]" and "isPotentialSection d1"
    and "children d1 = [d2]" and "isPotentialSection d2"
    and "children d2 = [a, b, c]"
    and "isPotentialSection a" and "isPotentialSection b" and "isPotentialSection c"
  shows "drillDown (body p) = [a, b, c] \<and> candidates p = [a, b, c]
         \<and> ((\<forall>el\<in>set [a, b, c].
                \<not> rect_height (boundingRect el) > totalHeight [a, b, c] * (8/10))
              \<and> rect_top (boundingRect a) \<le> rect_top (boundingRect b)
              \<and> rect_top (boundingRect b) \<le> rect_top (boundingRect c)
             \<longrightarrow> detector p = map (toSection (scrollY p)) [a, b, c])"
proof -
  have "getSections (body p) = [d1]" "getSections d1 = [d2]" "getSections d2 = [a, b, c]"
    using assms by (simp_all add: getSections_def)
  then have drill: "drillDown (body p) = [a, b, c]"
    by (simp add: drillDown_single drillDown_stop)
  then have cands: "candidates p = [a, b, c]"
    by (simp add: candidates_def Let_def split: option.splits)
  have "detector p = map (toSection (scrollY p)) [a, b, c]"
    if nomega: "\<forall>el\<in>set [a, b, c].
                  \<not> rect_height (boundingRect el) > totalHeight [a, b, c] * (8/10)"
      and ab: "rect_top (boundingRect a) \<le> rect_top (boundingRect b)"
      and bc: "rect_top (boundingRect b) \<le> rect_top (boundingRect c)"
  proof -
    have "finalElements [a, b, c] = [a, b, c]" using nomega by (rule no_mega_final)
    moreover have "sortedElements [a, b, c] = [a, b, c]"
      using assms(6-8) ab bc by (intro sortedElements_id) auto
    ultimately show ?thesis by (simp add: detector_def cands)
  qed
  with drill cands show ?thesis by blast
qed

text \<open>Three stacked sections of 600, 600 and 700 pixels under two wrappers.\<close>

theorem wrapper_drilling_witness:
  "detector \<lparr>body = box 0 0 0 1280 1900 [box 6 0 0 1280 1900 [box 7 0 0 1280 1900
       [box 2 0 0 1280 600 [], box 3 0 600 1280 600 [], box 4 0 1200 1280 700 []]]],
     mainEl = None, scrollY = 0\<rparr>
   = [\<lparr>y_start = 0, y_end = 600\<rparr>, \<lparr>y_start = 600, y_end = 1200\<rparr>,
      \<lparr>y_start = 1200, y_end = 1900\<rparr>]"
proof -
  let ?a = "box 2 0 0 1280 600 []" and ?b = "box 3 0 600 1280 600 []"
    and ?c = "box 4 0 1200 1280 700 []"
  let ?d2 = "box 7 0 0 1280 1900 [?a, ?b, ?c]"
  let ?d1 = "box 6 0 0 1280 1900 [?d2]"
  let ?p = "\<lparr>body = box 0 0 0 1280 1900 [?d1], mainEl = None, scrollY = 0\<rparr>"
  have "detector ?p = map (toSection (scrollY ?p)) [?a, ?b, ?c]"
    using wrapper_drilling[of ?p ?d1 ?d2 ?a ?b ?c]
    by (simp add: box_sel box_qualifies totalHeight_def)
  then show ?thesis by (simp add: toSection_def Let_def box_sel)
qed

text \<open>
  The same three elements do not come back as they are when one of them dominates
  (the first, 1000 pixels high against 60 and 60, has no qualifying child and
  disappears), nor when their top edges are not in document order (the result is
  sorted by top edge).
\<close>

theorem wrapper_drilling_counterexample:
  "detector \<lparr>body = box 0 0 0 1280 1120 [box 6 0 0 1280 1120 [box 7 0 0 1280 1120
       [box 2 0 0 1280 1000 [], box 3 0 1000 1280 60 [], box 4 0 1060 1280 60 []]]],
     mainEl = None, scrollY = 0\<rparr>
   \<noteq> map (toSection 0)
       [box 2 0 0 1280 1000 [], box 3 0 1000 1280 60 [], box 4 0 1060 1280 60 []]
   \<and> detector \<lparr>body = box 0 0 0 1280 1800 [box 6 0 0 1280 1800 [box 7 0 0 1280 1800
       [box 2 0 600 1280 600 [], box 3 0 0 1280 600 [], box 4 0 1200 1280 600 []]]],
     mainEl = None, scrollY = 0\<rparr>
   \<noteq> map (toSection 0)
       [box 2 0 600 1280 600 [], box 3 0 0 1280 600 [], box 4 0 1200 1280 600 []]"
proof -
  let ?a = "box 2 0 0 1280 1000 []" and ?b = "box 3 0 1000 1280 60 []"
    and ?c = "box 4 0 1060 1280 60 []"
  let ?d2 = "box 7 0 0 1280 1120 [?a, ?b, ?c]"
  let ?d1 = "box 6 0 0 1280 1120 [?d2]"
  let ?p = "\<lparr>body = box 0 0 0 1280 1120 [?d1], mainEl = None, scrollY = 0\<rparr>"
  have g: "getSections (body ?p) = [?d1]" "getSections ?d1 = [?d2]"
    "getSections ?d2 = [?a, ?b, ?c]" "getSections ?a = []"
    by (simp_all add: getSections_def box_sel box_qualifies)
  then have "drillDown (body ?p) = [?a, ?b, ?c]"
    by (simp add: drillDown_single drillDown_stop)
  then have "candidates ?p = [?a, ?b, ?c]" by (simp add: candidates_def Let_def)
  then have "detector ?p = [\<lparr>y_start = 1000, y_end = 1060\<rparr>, \<lparr>y_start = 1060, y_end = 1120\<rparr>]"
    by (simp add: detector_def finalElements_def megaContainer_def totalHeight_def
        sortedElements_def toSection_def Let_def box_sel g(4))
  then have first: "detector ?p \<noteq> map (toSection 0) [?a, ?b, ?c]" by simp
  let ?a' = "box 2 0 600 1280 600 []" and ?b' = "box 3 0 0 1280 600 []"
    and ?c' = "box 4 0 1200 1280 600 []"
  let ?e2 = "box 7 0 0 1280 1800 [?a', ?b', ?c']"
  let ?e1 = "box 6 0 0 1280 1800 [?e2]"
  let ?q = "\<lparr>body = box 0 0 0 1280 1800 [?e1], mainEl = None, scrollY = 0\<rparr>"
  have "getSections (body ?q) = [?e1]" "getSections ?e1 = [?e2]"
    "getSections ?e2 = [?a', ?b', ?c']"
    by (simp_all add: getSections_def box_sel box_qualifies)
  then have "drillDown (body ?q) = [?a', ?b', ?c']"
    by (simp add: drillDown_single drillDown_stop)
  then have "candidates ?q = [?a', ?b', ?c']" by (simp add: candidates_def Let_def)
  then have "detector ?q = [\<lparr>y_start = 0, y_end = 600\<rparr>, \<lparr>y_start = 600, y_end = 1200\<rparr>,
                            \<lparr>y_start = 1200, y_end = 1800\<rparr>]"
    by (simp add: detector_def finalElements_def megaContainer_def totalHeight_def
        sortedElements_def toSection_def Let_def box_sel)
  then have "detector ?q \<noteq> map (toSection 0) [?a', ?b', ?c']"
    by (simp add: toSection_def Let_def box_sel)
  with first show ?thesis by blast
qed

section \<open>Properties of the slicer\<close>

lemma js_round_tall: "50 < v \<Longrightarrow> 50 \<le> js_round v"
  by (simp add: js_round_def le_floor_iff)

lemma clipOf_sel:
  "clip_left (clipOf s) = 0"
  "clip_top (clipOf s) = js_round (y_start s)"
  "clip_width (clipOf s) = 1280"
  "clip_height (clipOf s) = js_round (y_end s - y_start s)"
  by (simp_all add: clipOf_def)

text \<open>
  A list without degenerate sections: the loop logs no skip, and when no extraction
  throws it writes one file per section, numbered consecutively.
\<close>

lemma sliceLoop_no_skip:
  assumes "\<forall>s\<in>set ss. 0 < clip_height (clipOf s)"
  shows "skippedSections (fst (sliceLoop env i ss)) = []"
  using assms
proof (induction ss arbitrary: i)
  case Nil
  then show ?case by simp
next
  case (Cons s ss)
  then have "skippedSections (fst (sliceLoop env (i + 1) ss)) = []" by simp
  moreover from Cons.prems have "0 < clip_height (clipOf s)" by simp
  ultimately show ?case
    by (auto simp: clipOf_sel Let_def split: prod.splits)
qed


lemma detector_clip_height:
  assumes "s \<in> set (detector p)"
  shows "50 \<le> clip_height (clipOf s)"
  using detector_span[OF assms] by (simp add: clipOf_sel js_round_tall)

lemma skip_unreachable_aux: "skippedSections (fst (sliceLoop env i (detector p))) = []"
proof -
  have "\<forall>s\<in>set (detector p). 0 < clip_height (clipOf s)"
    using detector_clip_height by fastforce
  then show ?thesis by (rule sliceLoop_no_skip)
qed




text \<open>
  C7. If the handler gets a non-empty URL, the browser starts, the page loads and is
  scrolled to its end, and the detector returns no section, then the run ends with the
  count 0, no file in the output directory, and the response 200 with an empty list of
  screenshots.
\<close>

theorem zero_sections_ok:
  assumes "url = Some u" and "u \<noteq> []"
    and "launch_ok env" and "goto_ok env"
    and "scrollPage (scrollHeightAt env) = Some r"
    and "detector p = []"
  shows "takeScreenshots env p = Some (\<lparr>master = False, crops = []\<rparr>, Inr 0)
         \<and> POST env url p
             = Some (\<lparr>master = False, crops = []\<rparr>, \<lparr>status = 200, payload = Screenshots []\<rparr>)"
proof -
  have "slicer env (detector p) = (\<lparr>master = False, crops = []\<rparr>, Inr 0)"
    using assms(6) by (simp add: slicer_def)
  then have run: "takeScreenshots env p = Some (\<lparr>master = False, crops = []\<rparr>, Inr 0)"
    using assms(4,5) by (simp add: takeScreenshots_def)
  then show ?thesis
    using assms(1-3) by (simp add: POST_def screenshotPaths_def)
qed

lemma scroll_allOk: "scrollPage (scrollHeightAt allOk) = Some (5, 1000)"
proof -
  have "scrollLoop (\<lambda>k. 1000) 4 800 = Some (5, 1000)"
    by (subst scrollLoop.simps) (simp add: distance_def)
  then have "scrollLoop (\<lambda>k. 1000) 3 600 = Some (5, 1000)"
    by (subst scrollLoop.simps) (simp add: distance_def eval_nat_numeral)
  then have "scrollLoop (\<lambda>k. 1000) 2 400 = Some (5, 1000)"
    by (subst scrollLoop.simps) (simp add: distance_def eval_nat_numeral)
  then have "scrollLoop (\<lambda>k. 1000) 1 200 = Some (5, 1000)"
    by (subst scrollLoop.simps) (simp add: distance_def eval_nat_numeral)
  then have "scrollLoop (\<lambda>k. 1000) 0 0 = Some (5, 1000)"
    by (subst scrollLoop.simps) (simp add: distance_def)
  then show ?thesis by (simp add: scrollPage_def allOk_def)
qed

text \<open>A page whose only element is too small to be a section.\<close>

theorem zero_sections_ok_witness:
  "detector \<lparr>body = box 0 0 0 1280 40 [box 2 0 0 1280 40 []], mainEl = None, scrollY = 0\<rparr> = []
   \<and> POST allOk (Some ''http://example.org'')
        \<lparr>body = box 0 0 0 1280 40 [box 2 0 0 1280 40 []], mainEl = None, scrollY = 0\<rparr>
       = Some (\<lparr>master = False, crops = []\<rparr>, \<lparr>status = 200, payload = Screenshots []\<rparr>)"
proof -
  let ?p = "\<lparr>body = box 0 0 0 1280 40 [box 2 0 0 1280 40 []], mainEl = None, scrollY = 0\<rparr>"
  have none: "detector ?p = []"
    by (simp add: detector_def candidates_def drillDown_stop getSections_def box_sel
        box_qualifies finalElements_def megaContainer_def totalHeight_def sortedElements_def)
  have "launch_ok allOk" "goto_ok allOk" by (simp_all add: allOk_def)
  with zero_sections_ok[OF refl _ _ _ scroll_allOk none, of "''http://example.org''"] none
  show ?thesis by simp
qed

text \<open>
  What the slicer returns on success is the number of sections it was given; the files
  written and the sections skipped add up to it.
\<close>

lemma sliceLoop_count:
  "snd (sliceLoop env i ss) = None \<Longrightarrow>
   length (savedFiles (fst (sliceLoop env i ss)))
     + length (skippedSections (fst (sliceLoop env i ss))) = length ss"
proof (induction ss arbitrary: i)
  case Nil
  then show ?case by simp
next
  case (Cons s ss)
  obtain es e where rest: "sliceLoop env (Suc i) ss = (es, e)"
    by (cases "sliceLoop env (Suc i) ss")
  from Cons.prems rest have "e = None"
    by (simp add: Let_def split: if_splits)
  with Cons.IH[of "Suc i"] rest
  have ih: "length (savedFiles es) + length (skippedSections es) = length ss" by simp
  from Cons.prems rest ih show ?case
    by (simp add: Let_def split: if_splits)
qed

lemma slicer_count:
  assumes "slicer env sections = (d, Inr n)"
  shows "n = length sections
         \<and> length (crops d) + length (skippedSections (fst (sliceLoop env 0 sections))) = n"
proof (cases "sections = []")
  case True
  with assms show ?thesis by (auto simp: slicer_def)
next
  case False
  with assms obtain es where es: "sliceLoop env 0 sections = (es, None)"
    and d: "crops d = savedFiles es" and n: "n = length sections"
    by (auto simp: slicer_def split: if_splits prod.splits option.splits)
  from sliceLoop_count[of env 0 sections] es
  have "length (savedFiles es) + length (skippedSections es) = length sections" by simp
  with es d n show ?thesis by simp
qed

text \<open>
  On the detector's own output nothing is skipped, so a run that returns a count has
  written that many files.
\<close>

lemma takeScreenshots_count:
  assumes "takeScreenshots env p = Some (d, Inr n)"
  shows "length (crops d) = n"
proof -
  from assms have s: "slicer env (detector p) = (d, Inr n)"
    by (auto simp: takeScreenshots_def split: if_splits option.splits)
  have "skippedSections (fst (sliceLoop env 0 (detector p))) = []"
    using skip_unreachable_aux by simp
  with slicer_count[OF s] show ?thesis by simp
qed






text \<open>
  The loop on its own, handed a section of height 0 (which the detector never returns):
  the section is skipped, one file is written, and the count is still 2.
\<close>

lemma slicer_zero_height_section:
  "slicer allOk [\<lparr>y_start = 0, y_end = 600\<rparr>, \<lparr>y_start = 600, y_end = 600\<rparr>]
     = (\<lparr>master = False, crops = [1]\<rparr>, Inr 2)"
  by (simp add: slicer_def clipOf_def js_round_def Let_def) (simp add: allOk_def)

section \<open>Properties of the clips\<close>










end
